theory Spec2Isabelle
  imports Main "HOL-Library.AList" "HOL-Library.Sublist"
begin

section \<open>CatQuery.ts: the reactive store and its render binder\<close>

text \<open>
  The development embeds \<^verbatim>\<open>CatStore\<close> (constructor, the Proxy \<^verbatim>\<open>set\<close> trap,
  \<^verbatim>\<open>subscribe\<close>, \<^verbatim>\<open>notify\<close>) and the part of \<^verbatim>\<open>CatQuery\<close> that the binder
  uses (\<^verbatim>\<open>onDebugging\<close>, \<^verbatim>\<open>forCreatedElementDo\<close>, \<^verbatim>\<open>forEachNodeDo\<close>, \<^verbatim>\<open>html\<close>,
  \<^verbatim>\<open>bind\<close>) of \<^verbatim>\<open>src/CatQuery.ts\<close>.

  Conventions of the embedding.
  \<^item> A JavaScript object used as state is an association list from property names to
    values, in property order; \<^verbatim>\<open>target[key] = value\<close> is \<^const>\<open>AList.update\<close>
    (overwrite in place, or append a new property). Objects are values here: a caller
    that hands the very same object to two stores shares it between them, and that
    sharing is outside the model.
  \<^item> A thrown exception is a result \<open>Throw e\<close>, returned together with the state
    reached when it was thrown: JavaScript does not roll anything back.
  \<^item> Function objects live in a table (\<open>funs\<close>); a listener is the index of its
    function object, so that identity (what \<^verbatim>\<open>Set\<close> compares) is the index.
  \<^item> A callback acts on the environment outside the store (the targets' child lists
    and the console). A callback that writes to the store, subscribes or unsubscribes
    while it is being notified, or that touches \<^verbatim>\<open>localStorage\<close>, is outside the
    model.
  \<^item> The targets of a \<^verbatim>\<open>CatQuery\<close> are element identities with a child list each;
    no target is nested inside another one. The methods embedded here never assign the
    fields of a \<^verbatim>\<open>CatQuery\<close>, so the arrow function of \<^verbatim>\<open>bind\<close> holds its
    \<^verbatim>\<open>this\<close> as a value.
  \<^item> The host's own functions (\<^verbatim>\<open>JSON.stringify\<close>, \<^verbatim>\<open>JSON.parse\<close>, the quota of
    \<^verbatim>\<open>localStorage.setItem\<close>, \<^verbatim>\<open>DOMParser\<close>, the \<^verbatim>\<open>innerHTML\<close> getter and
    \<^verbatim>\<open>cloneNode\<close>) are parameters, collected in a record.
  \<^item> \<open>trace\<close> is an observation log: every successful \<^verbatim>\<open>setItem\<close> and every
    invocation of a listener is appended to it, in the order in which it happens.
\<close>

subsection \<open>Values, exceptions and the host\<close>

datatype exn = TypeError | SyntaxError | QuotaExceededError | Error string

datatype 'a result = Return 'a | Throw exn

type_synonym 'v obj = "(string \<times> 'v) list"

type_synonym storage = "string \<Rightarrow> string option"

record 'n env =
  childNodes :: "nat \<Rightarrow> 'n list"
  console :: "string list"

type_synonym ('v, 'n) listener = "'v obj \<Rightarrow> 'n env \<Rightarrow> 'n env \<times> unit result"

datatype 'v event = Saved string string | Called nat "'v obj"

record ('v, 'n) world =
  localStorage :: storage
  env :: "'n env"
  funs :: "('v, 'n) listener list"
  trace :: "'v event list"

text \<open>
  The host. \<open>storage_fault ls k v\<close> is the exception \<^verbatim>\<open>localStorage.setItem(k, v)\<close>
  raises on the storage \<open>ls\<close>, if any. \<open>JSON_parse\<close> stands for \<^verbatim>\<open>JSON.parse\<close>
  followed by the object check of \<^verbatim>\<open>new Proxy\<close>: \<open>Inl\<close> is a malformed text or a text
  that denotes no object.
\<close>

record ('v, 'n) host =
  storage_fault :: "storage \<Rightarrow> string \<Rightarrow> string \<Rightarrow> exn option"
  JSON_stringify :: "'v obj \<Rightarrow> exn + string"
  JSON_parse :: "string \<Rightarrow> exn + 'v obj"
  parseFromString :: "string \<Rightarrow> 'n list"
  innerHTML :: "'n list \<Rightarrow> string"
  cloneNode :: "'n \<Rightarrow> 'n"

definition getItem :: "storage \<Rightarrow> string \<Rightarrow> string option" where
  "getItem ls k = ls k"

definition setItem :: "('v, 'n) host \<Rightarrow> storage \<Rightarrow> string \<Rightarrow> string \<Rightarrow> exn + storage" where
  "setItem h ls k v =
     (case storage_fault h ls k v of Some e \<Rightarrow> Inl e | None \<Rightarrow> Inr (ls(k \<mapsto> v)))"

text \<open>JavaScript truthiness of a \<^verbatim>\<open>string | null | undefined\<close>: a non-empty string.\<close>

fun truthy :: "string option \<Rightarrow> bool" where
  "truthy None = False"
| "truthy (Some s) = (s \<noteq> [])"

subsection \<open>CatStore\<close>

text \<open>
  \<open>listeners\<close> is the \<^verbatim>\<open>Set<CatListener<T>>\<close>, in insertion order; \<open>state\<close> is the
  target of the Proxy.
\<close>

record 'v CatStore =
  listeners :: "nat list"
  state :: "'v obj"
  storageKey :: "string option"

definition Set_add :: "nat \<Rightarrow> nat list \<Rightarrow> nat list" where
  "Set_add l ls = (if l \<in> set ls then ls else ls @ [l])"

definition Set_delete :: "nat \<Rightarrow> nat list \<Rightarrow> nat list \<times> bool" where
  "Set_delete l ls = (removeAll l ls, l \<in> set ls)"

text \<open>Lines 16 to 34: the constructor. It reads the storage and changes nothing.\<close>

definition CatStore_new ::
  "('v, 'n) host \<Rightarrow> storage \<Rightarrow> 'v obj \<Rightarrow> string option \<Rightarrow> exn + 'v CatStore" where
  "CatStore_new h ls initialState key =
     (let savedState = (if truthy key then getItem ls (the key) else None) in
      case (if truthy savedState then JSON_parse h (the savedState) else Inr initialState) of
        Inl e \<Rightarrow> Inl e
      | Inr baseState \<Rightarrow> Inr \<lparr>listeners = [], state = baseState, storageKey = key\<rparr>)"

text \<open>
  Calling the function object \<open>l\<close> with the state: a value that is no function raises
  \<^verbatim>\<open>TypeError\<close>.
\<close>

definition call_listener ::
  "('v, 'n) world \<Rightarrow> nat \<Rightarrow> 'v obj \<Rightarrow> ('v, 'n) world \<times> unit result" where
  "call_listener w l s =
     (if l < length (funs w) then
        (case (funs w ! l) s (env w) of
           (e', r) \<Rightarrow> (w\<lparr>env := e', trace := trace w @ [Called l s]\<rparr>, r))
      else (w, Throw TypeError))"

text \<open>Lines 42 to 44: \<^verbatim>\<open>forEach\<close> stops at the first listener that throws.\<close>

fun forEach_listener ::
  "('v, 'n) world \<Rightarrow> 'v obj \<Rightarrow> nat list \<Rightarrow> ('v, 'n) world \<times> unit result" where
  "forEach_listener w s [] = (w, Return ())"
| "forEach_listener w s (l # ls) =
     (case call_listener w l s of
        (w', Throw e) \<Rightarrow> (w', Throw e)
      | (w', Return u) \<Rightarrow> forEach_listener w' s ls)"

definition notify ::
  "'v CatStore \<Rightarrow> ('v, 'n) world \<Rightarrow> ('v, 'n) world \<times> unit result" where
  "notify st w = forEach_listener w (state st) (listeners st)"

text \<open>
  Lines 23 to 32: the \<^verbatim>\<open>set\<close> trap of the Proxy, that is a field write. \<open>persist\<close>
  is its second statement (lines 26 to 28), on the store whose record is already
  updated.
\<close>

definition persist ::
  "('v, 'n) host \<Rightarrow> 'v CatStore \<Rightarrow> ('v, 'n) world \<Rightarrow> exn + ('v, 'n) world" where
  "persist h st w =
     (if truthy (storageKey st) then
        (case JSON_stringify h (state st) of
           Inl e \<Rightarrow> Inl e
         | Inr text \<Rightarrow>
             (case setItem h (localStorage w) (the (storageKey st)) text of
                Inl e \<Rightarrow> Inl e
              | Inr ls' \<Rightarrow>
                  Inr (w\<lparr>localStorage := ls',
                         trace := trace w @ [Saved (the (storageKey st)) text]\<rparr>)))
      else Inr w)"

definition proxy_set ::
  "('v, 'n) host \<Rightarrow> 'v CatStore \<Rightarrow> ('v, 'n) world \<Rightarrow> string \<Rightarrow> 'v \<Rightarrow>
     ('v CatStore \<times> ('v, 'n) world) \<times> bool result" where
  "proxy_set h st w key val =
     (let st1 = st\<lparr>state := AList.update key val (state st)\<rparr> in
      case persist h st1 w of
        Inl e \<Rightarrow> ((st1, w), Throw e)
      | Inr w1 \<Rightarrow>
          (case notify st1 w1 of
             (w2, Throw e) \<Rightarrow> ((st1, w2), Throw e)
           | (w2, Return u) \<Rightarrow> ((st1, w2), Return True)))"

text \<open>
  The values the embedded methods return: the \<^verbatim>\<open>CatQuery\<close> itself (\<^verbatim>\<open>return this\<close>),
  the closure \<^verbatim>\<open>() => this.listeners.delete(listener)\<close> of line 39 with the listener
  it holds, a boolean, or an array of strings.
\<close>

record CatQuery =
  createdElement :: "nat option"
  selectedNodes :: "nat list option"
  debugging :: bool

datatype jsval = Unsubscriber nat | QueryObj CatQuery | Bool bool | Strings "string list"

text \<open>Lines 36 to 40.\<close>

definition subscribe ::
  "'v CatStore \<Rightarrow> ('v, 'n) world \<Rightarrow> nat \<Rightarrow> ('v CatStore \<times> ('v, 'n) world) \<times> jsval result" where
  "subscribe st w listener =
     (let st1 = st\<lparr>listeners := Set_add listener (listeners st)\<rparr> in
      case call_listener w listener (state st1) of
        (w', Throw e) \<Rightarrow> ((st1, w'), Throw e)
      | (w', Return u) \<Rightarrow> ((st1, w'), Return (Unsubscriber listener)))"

text \<open>
  Calling a returned value as a function of no argument, on the store it came from. The
  closure of line 39 deletes its listener and returns what \<^verbatim>\<open>Set.delete\<close> returns;
  a value that is no function raises \<^verbatim>\<open>TypeError\<close>.
\<close>

fun invoke :: "'v CatStore \<Rightarrow> jsval \<Rightarrow> 'v CatStore \<times> jsval result" where
  "invoke st (Unsubscriber l) =
     (case Set_delete l (listeners st) of
        (ls', b) \<Rightarrow> (st\<lparr>listeners := ls'\<rparr>, Return (Bool b)))"
| "invoke st v = (st, Throw TypeError)"

subsection \<open>CatQuery: html and bind\<close>

text \<open>Lines 63 to 82. A callback works on the environment and on the local array it fills.\<close>

definition onDebugging :: "CatQuery \<Rightarrow> string \<Rightarrow> 'n env \<Rightarrow> 'n env" where
  "onDebugging q message e =
     (if debugging q then e\<lparr>console := console e @ [message]\<rparr> else e)"

definition forCreatedElementDo ::
  "CatQuery \<Rightarrow> (nat \<Rightarrow> 'n env \<times> 'a \<Rightarrow> 'n env \<times> 'a) \<Rightarrow> string \<Rightarrow> 'n env \<times> 'a \<Rightarrow> 'n env \<times> 'a" where
  "forCreatedElementDo q callback debugMessage s =
     (case createdElement q of
        Some element \<Rightarrow> callback element (onDebugging q debugMessage (fst s), snd s)
      | None \<Rightarrow> s)"

fun forNodes ::
  "CatQuery \<Rightarrow> (nat \<Rightarrow> 'n env \<times> 'a \<Rightarrow> 'n env \<times> 'a) \<Rightarrow> string \<Rightarrow> nat list \<Rightarrow> 'n env \<times> 'a \<Rightarrow> 'n env \<times> 'a" where
  "forNodes q callback debugMessage [] s = s"
| "forNodes q callback debugMessage (node # rest) s =
     forNodes q callback debugMessage rest
       (callback node (onDebugging q debugMessage (fst s), snd s))"

definition forEachNodeDo ::
  "CatQuery \<Rightarrow> (nat \<Rightarrow> 'n env \<times> 'a \<Rightarrow> 'n env \<times> 'a) \<Rightarrow> string \<Rightarrow> 'n env \<times> 'a \<Rightarrow> 'n env \<times> 'a" where
  "forEachNodeDo q callback debugMessage s =
     (case selectedNodes q of
        Some nodes \<Rightarrow> forNodes q callback debugMessage nodes s
      | None \<Rightarrow> s)"

text \<open>Lines 237 to 245: the patch rule is the branch with \<open>adding\<close> false.\<close>

definition updateAction ::
  "('v, 'n) host \<Rightarrow> bool \<Rightarrow> 'n list \<Rightarrow> string \<Rightarrow> nat \<Rightarrow> 'n env \<times> unit \<Rightarrow> 'n env \<times> unit" where
  "updateAction h adding newNodes htmlText element s =
     (let e = fst s in
      if adding then
        (e\<lparr>childNodes := (childNodes e)(element := childNodes e element @ map (cloneNode h) newNodes)\<rparr>, ())
      else if innerHTML h (childNodes e element) \<noteq> htmlText then
        (e\<lparr>childNodes := (childNodes e)(element := map (cloneNode h) newNodes)\<rparr>, ())
      else s)"

definition pushHtml :: "('v, 'n) host \<Rightarrow> nat \<Rightarrow> 'n env \<times> string list \<Rightarrow> 'n env \<times> string list" where
  "pushHtml h element s = (fst s, snd s @ [innerHTML h (childNodes (fst s) element)])"

text \<open>Lines 230 to 264.\<close>

definition html ::
  "('v, 'n) host \<Rightarrow> CatQuery \<Rightarrow> string option \<Rightarrow> bool \<Rightarrow> 'n env \<Rightarrow> 'n env \<times> jsval" where
  "html h q htmlText adding e =
     (if truthy htmlText then
        (let newNodes = parseFromString h (the htmlText);
             act = updateAction h adding newNodes (the htmlText);
             s1 = forCreatedElementDo q act ''Setting HTML to created element.'' (e, ());
             s2 = forEachNodeDo q act ''Setting HTML to selected nodes.'' s1
         in (fst s2, QueryObj q))
      else
        (let s1 = forCreatedElementDo q (pushHtml h) ''Getting created element html'' (e, []);
             s2 = forEachNodeDo q (pushHtml h) ''Getting selected nodes html.'' s1
         in (fst s2, Strings (snd s2))))"



subsection \<open>A small host, to run the definitions\<close>

text \<open>
  The spec's concrete scenario is a store over \<^verbatim>\<open>{count: 0}\<close>. \<open>demo_host\<close> is a host
  whose JSON functions are tabulated on the two records of that scenario, whose storage
  accepts every write, and whose nodes are the markup texts themselves. \<open>full_host\<close> is
  the same host with a storage that is full. They serve only to evaluate the definitions
  on concrete inputs.
\<close>

definition demo_host :: "(int, string) host" where
  \<open>demo_host =
     \<lparr>storage_fault = (\<lambda>ls k v. None),
      JSON_stringify = (\<lambda>r. if r = [(''count'', 0)] then Inr ''{"count":0}''
                             else if r = [(''count'', 1)] then Inr ''{"count":1}''
                             else Inl TypeError),
      JSON_parse = (\<lambda>t. if t = ''{"count":0}'' then Inr [(''count'', 0)]
                         else if t = ''{"count":1}'' then Inr [(''count'', 1)]
                         else Inl SyntaxError),
      parseFromString = (\<lambda>t. if t = [] then [] else [t]),
      innerHTML = concat,
      cloneNode = (\<lambda>n. n)\<rparr>\<close>

definition full_host :: "(int, string) host" where
  "full_host = demo_host\<lparr>storage_fault := (\<lambda>ls k v. Some QuotaExceededError)\<rparr>"

definition demo_world :: "(int, string) listener list \<Rightarrow> (int, string) world" where
  "demo_world fs =
     \<lparr>localStorage = Map.empty, env = \<lparr>childNodes = (\<lambda>t. []), console = []\<rparr>, funs = fs, trace = []\<rparr>"

definition demo_store :: "nat list \<Rightarrow> string option \<Rightarrow> int CatStore" where
  "demo_store ls key = \<lparr>listeners = ls, state = [(''count'', 0)], storageKey = key\<rparr>"

definition quiet :: "(int, string) listener" where
  "quiet s e = (e, Return ())"

definition noting :: "(int, string) listener" where
  "noting s e = (e\<lparr>console := console e @ [''seen'']\<rparr>, Return ())"

definition failing :: "(int, string) listener" where
  "failing s e = (e, Throw (Error ''boom''))"


definition demo_query :: CatQuery where
  "demo_query = \<lparr>createdElement = None, selectedNodes = Some [0], debugging = False\<rparr>"

definition demo_env :: "string env" where
  "demo_env = \<lparr>childNodes = (\<lambda>t. [''<p>old</p>'']), console = []\<rparr>"

subsection \<open>A notification pass on the environment\<close>

text \<open>
  Two notions for stating what a pass over the registry does. \<open>effects fs s e ls\<close> is
  the environment reached from \<open>e\<close> when the function objects \<open>ls\<close> of the table \<open>fs\<close>
  are applied to the state \<open>s\<close> one after the other. \<open>returning fs s e ls\<close> says that in
  this very run every one of them is a function object and returns instead of throwing.
\<close>

abbreviation effect :: "('v, 'n) listener list \<Rightarrow> 'v obj \<Rightarrow> 'n env \<Rightarrow> nat \<Rightarrow> 'n env" where
  "effect fs s e l \<equiv> fst ((fs ! l) s e)"

abbreviation effects :: "('v, 'n) listener list \<Rightarrow> 'v obj \<Rightarrow> 'n env \<Rightarrow> nat list \<Rightarrow> 'n env" where
  "effects fs s e ls \<equiv> foldl (effect fs s) e ls"

fun returning :: "('v, 'n) listener list \<Rightarrow> 'v obj \<Rightarrow> 'n env \<Rightarrow> nat list \<Rightarrow> bool" where
  "returning fs s e [] = True"
| "returning fs s e (l # ls) =
     (l < length fs \<and> snd ((fs ! l) s e) = Return () \<and> returning fs s (effect fs s e l) ls)"

section \<open>Properties\<close>

subsection \<open>The notification pass\<close>

lemma call_listener_frame:
  "call_listener w l s = (w', r) \<Longrightarrow> funs w' = funs w \<and> localStorage w' = localStorage w"
  by (auto simp: call_listener_def split: if_splits prod.splits)

lemma call_listener_trace:
  "l < length (funs w) \<Longrightarrow> call_listener w l s = (w', r) \<Longrightarrow> trace w' = trace w @ [Called l s]"
  by (auto simp: call_listener_def split: prod.splits)

lemma forEach_listener_frame:
  "forEach_listener w s ls = (w', r) \<Longrightarrow> funs w' = funs w \<and> localStorage w' = localStorage w"
proof (induction ls arbitrary: w)
  case Nil
  then show ?case by simp
next
  case (Cons l ls)
  obtain w1 r1 where c: "call_listener w l s = (w1, r1)" by (cases "call_listener w l s")
  show ?case
  proof (cases r1)
    case (Return u)
    with Cons.prems c have "forEach_listener w1 s ls = (w', r)" by simp
    from Cons.IH[OF this] call_listener_frame[OF c] show ?thesis by simp
  next
    case (Throw e)
    with Cons.prems c have "w' = w1" by simp
    with call_listener_frame[OF c] show ?thesis by simp
  qed
qed

lemma forEach_listener_append:
  "forEach_listener w s (xs @ ys) =
     (case forEach_listener w s xs of
        (w', Throw e) \<Rightarrow> (w', Throw e)
      | (w', Return u) \<Rightarrow> forEach_listener w' s ys)"
  by (induction xs arbitrary: w) (auto split: prod.splits result.splits)

lemma call_listener_Return:
  "call_listener w l s = (w', Return u) \<Longrightarrow> l < length (funs w) \<and> trace w' = trace w @ [Called l s]"
  by (auto simp: call_listener_def split: if_splits prod.splits)

lemma forEach_listener_Return:
  "forEach_listener w s ls = (w', Return u) \<Longrightarrow> trace w' = trace w @ map (\<lambda>l. Called l s) ls"
proof (induction ls arbitrary: w)
  case Nil
  then show ?case by simp
next
  case (Cons l ls)
  obtain w1 r1 where c: "call_listener w l s = (w1, r1)" by (cases "call_listener w l s")
  with Cons.prems obtain u1 where r1: "r1 = Return u1" and rest: "forEach_listener w1 s ls = (w', Return u)"
    by (cases r1) auto
  have t: "trace w1 = trace w @ [Called l s]" using call_listener_Return c r1 by blast
  have "trace w' = trace w1 @ map (\<lambda>l. Called l s) ls"
    using Cons.IH[OF rest] by simp
  with t show ?case by simp
qed

lemma forEach_listener_prefix:
  "forEach_listener w s ls = (w', r) \<Longrightarrow>
     \<exists>done. trace w' = trace w @ map (\<lambda>l. Called l s) done \<and> prefix done ls"
proof (induction ls arbitrary: w)
  case Nil
  then show ?case by simp
next
  case (Cons l ls)
  obtain w1 r1 where c: "call_listener w l s = (w1, r1)" by (cases "call_listener w l s")
  show ?case
  proof (cases r1)
    case (Return u1)
    with Cons.prems c have rest: "forEach_listener w1 s ls = (w', r)" by simp
    from Cons.IH[OF rest] obtain d where d: "trace w' = trace w1 @ map (\<lambda>l. Called l s) d" "prefix d ls"
      by blast
    have t: "trace w1 = trace w @ [Called l s]" using call_listener_Return c Return by blast
    have "trace w' = trace w @ map (\<lambda>l. Called l s) (l # d) \<and> prefix (l # d) (l # ls)"
      using d t by simp
    then show ?thesis by blast
  next
    case (Throw e)
    with Cons.prems c have w': "w' = w1" by simp
    show ?thesis
    proof (cases "l < length (funs w)")
      case True
      then have "trace w1 = trace w @ [Called l s]" using call_listener_trace c by blast
      with w' have "trace w' = trace w @ map (\<lambda>l. Called l s) [l] \<and> prefix [l] (l # ls)" by simp
      then show ?thesis by blast
    next
      case False
      with c have "w1 = w" by (simp add: call_listener_def)
      with w' have "trace w' = trace w @ map (\<lambda>l. Called l s) [] \<and> prefix [] (l # ls)" by simp
      then show ?thesis by blast
    qed
  qed
qed

lemma persist_cases:
  "persist h st w = Inr w1 \<Longrightarrow>
     funs w1 = funs w \<and> env w1 = env w \<and>
     (if truthy (storageKey st)
      then \<exists>text. JSON_stringify h (state st) = Inr text \<and>
             storage_fault h (localStorage w) (the (storageKey st)) text = None \<and>
             localStorage w1 = (localStorage w)(the (storageKey st) \<mapsto> text) \<and>
             trace w1 = trace w @ [Saved (the (storageKey st)) text]
      else w1 = w)"
  by (auto simp: persist_def setItem_def split: if_splits sum.splits option.splits)

lemma Set_add_distinct: "distinct ls \<Longrightarrow> distinct (Set_add l ls)"
  by (simp add: Set_add_def)

lemma count_list_distinct:
  "distinct ls \<Longrightarrow> count_list ls l = (if l \<in> set ls then 1 else 0)"
  by (induction ls) auto

lemma proxy_set_saved:
  fixes h :: "('v, 'n) host"
  assumes slot: "storageKey st = Some k" "k \<noteq> []"
    and ser: "JSON_stringify h (AList.update f v (state st)) = Inr text"
    and acc: "storage_fault h (localStorage w) k text = None"
    and run: "proxy_set h st w f v = ((st', w'), r)"
  shows "localStorage w' = (localStorage w)(k \<mapsto> text)"
proof -
  define st1 where "st1 = st\<lparr>state := AList.update f v (state st)\<rparr>"
  define w1 where "w1 = w\<lparr>localStorage := (localStorage w)(k \<mapsto> text),
                          trace := trace w @ [Saved k text]\<rparr>"
  have p: "persist h st1 w = Inr w1"
    using slot ser acc by (simp add: persist_def setItem_def st1_def w1_def)
  obtain w2 r2 where n: "forEach_listener w1 (state st1) (listeners st) = (w2, r2)"
    by (cases "forEach_listener w1 (state st1) (listeners st)")
  have "proxy_set h st w f v =
      ((st1, w2), case r2 of Throw e \<Rightarrow> Throw e | Return u \<Rightarrow> Return True)"
    using p n by (simp add: proxy_set_def notify_def st1_def split: result.splits)
  with run have "w' = w2" by simp
  with forEach_listener_frame[OF n] show ?thesis by (simp add: w1_def)
qed

lemma proxy_set_events:
  fixes h :: "('v, 'n) host"
  assumes run: "proxy_set h st w key v = ((st', w'), r)"
  shows "st' = st\<lparr>state := AList.update key v (state st)\<rparr>"
    and "\<exists>sv done. trace w' = trace w @ sv @ map (\<lambda>l. Called l (state st')) done \<and>
           prefix done (listeners st) \<and> (\<forall>ev\<in>set sv. \<exists>k t. ev = Saved k t) \<and>
           (r = Return True \<longrightarrow> done = listeners st)"
    and "funs w' = funs w"
proof -
  define st1 where "st1 = st\<lparr>state := AList.update key v (state st)\<rparr>"
  have all: "st' = st1 \<and>
     (\<exists>sv done. trace w' = trace w @ sv @ map (\<lambda>l. Called l (state st1)) done \<and>
           prefix done (listeners st) \<and> (\<forall>ev\<in>set sv. \<exists>k t. ev = Saved k t) \<and>
           (r = Return True \<longrightarrow> done = listeners st)) \<and>
     funs w' = funs w"
  proof (cases "persist h st1 w")
    case (Inl e)
    then have "proxy_set h st w key v = ((st1, w), Throw e)"
      by (simp add: proxy_set_def st1_def)
    with run have eq: "st' = st1" "w' = w" "r = Throw e" by simp_all
    have "trace w' = trace w @ [] @ map (\<lambda>l. Called l (state st1)) [] \<and>
           prefix [] (listeners st) \<and> (\<forall>ev\<in>set ([]::'v event list). \<exists>k t. ev = Saved k t) \<and>
           (r = Return True \<longrightarrow> [] = listeners st)"
      using eq by simp
    then show ?thesis using eq by blast
  next
    case (Inr w1)
    note pc = persist_cases[OF Inr]
    obtain sv where t1: "trace w1 = trace w @ sv" and sv: "\<forall>ev\<in>set sv. \<exists>k t. ev = Saved k t"
    proof (cases "truthy (storageKey st1)")
      case True
      with pc obtain saved_text where "trace w1 = trace w @ [Saved (the (storageKey st1)) saved_text]"
        by auto
      then show ?thesis using that[of "[Saved (the (storageKey st1)) saved_text]"] by simp
    next
      case False
      with pc have "w1 = w" by simp
      then show ?thesis using that[of "[]"] by simp
    qed
    obtain w2 r2 where n: "forEach_listener w1 (state st1) (listeners st) = (w2, r2)"
      by (cases "forEach_listener w1 (state st1) (listeners st)")
    have "proxy_set h st w key v =
        ((st1, w2), case r2 of Throw e \<Rightarrow> Throw e | Return u \<Rightarrow> Return True)"
      using Inr n by (simp add: proxy_set_def notify_def st1_def split: result.splits)
    with run have eq: "st' = st1" "w' = w2"
      "r = (case r2 of Throw e \<Rightarrow> Throw e | Return u \<Rightarrow> Return True)" by simp_all
    from forEach_listener_prefix[OF n] obtain d where
      d: "trace w2 = trace w1 @ map (\<lambda>l. Called l (state st1)) d" "prefix d (listeners st)"
      by blast
    have fr: "funs w2 = funs w1"
      using forEach_listener_frame[OF n] by simp
    have C: "r = Return True \<longrightarrow> trace w2 = trace w1 @ map (\<lambda>l. Called l (state st1)) (listeners st)"
    proof
      assume "r = Return True"
      with eq(3) obtain u where "r2 = Return u" by (cases r2) auto
      with n show "trace w2 = trace w1 @ map (\<lambda>l. Called l (state st1)) (listeners st)"
        using forEach_listener_Return by blast
    qed
    have inj: "inj (\<lambda>l. Called l (state st1))" by (simp add: inj_def)
    have D: "r = Return True \<longrightarrow> d = listeners st"
      using C d(1) inj by (auto simp: inj_map_eq_map)
    have "trace w2 = trace w @ sv @ map (\<lambda>l. Called l (state st1)) d \<and>
           prefix d (listeners st) \<and> (\<forall>ev\<in>set sv. \<exists>k t. ev = Saved k t) \<and>
           (r = Return True \<longrightarrow> d = listeners st)"
      using d t1 sv D by simp
    moreover have "funs w2 = funs w" using pc fr by simp
    ultimately show ?thesis using eq(1,2) by blast
  qed
  from all show "st' = st\<lparr>state := AList.update key v (state st)\<rparr>" by (simp add: st1_def)
  from all show "\<exists>sv done. trace w' = trace w @ sv @ map (\<lambda>l. Called l (state st')) done \<and>
           prefix done (listeners st) \<and> (\<forall>ev\<in>set sv. \<exists>k t. ev = Saved k t) \<and>
           (r = Return True \<longrightarrow> done = listeners st)" by blast
  from all show "funs w' = funs w" by blast
qed

lemma returning_append:
  "returning fs s e (xs @ ys) \<longleftrightarrow> returning fs s e xs \<and> returning fs s (effects fs s e xs) ys"
  by (induction xs arbitrary: e) auto

lemma call_listener_returning:
  assumes "l < length (funs w)" "snd ((funs w ! l) s (env w)) = r"
  shows "call_listener w l s =
           (w\<lparr>env := effect (funs w) s (env w) l, trace := trace w @ [Called l s]\<rparr>, r)"
  using assms by (auto simp: call_listener_def split: prod.splits)

lemma forEach_listener_returning:
  "returning (funs w) s (env w) ls \<Longrightarrow>
     forEach_listener w s ls =
       (w\<lparr>env := effects (funs w) s (env w) ls, trace := trace w @ map (\<lambda>l. Called l s) ls\<rparr>,
        Return ())"
proof (induction ls arbitrary: w)
  case Nil
  then show ?case by simp
next
  case (Cons l ls)
  define w1 where "w1 = w\<lparr>env := effect (funs w) s (env w) l, trace := trace w @ [Called l s]\<rparr>"
  have c: "call_listener w l s = (w1, Return ())"
    using Cons.prems by (simp add: call_listener_returning w1_def)
  have "returning (funs w1) s (env w1) ls" using Cons.prems by (simp add: w1_def)
  from Cons.IH[OF this] c show ?case by (simp add: w1_def)
qed

lemma forEach_listener_throwing:
  assumes "returning (funs w) s (env w) pre" "l < length (funs w)"
    and "snd ((funs w ! l) s (effects (funs w) s (env w) pre)) = Throw e"
  shows "forEach_listener w s (pre @ l # post) =
           (w\<lparr>env := effect (funs w) s (effects (funs w) s (env w) pre) l,
              trace := trace w @ map (\<lambda>l. Called l s) (pre @ [l])\<rparr>, Throw e)"
proof -
  define w1 where "w1 = w\<lparr>env := effects (funs w) s (env w) pre,
                          trace := trace w @ map (\<lambda>l. Called l s) pre\<rparr>"
  have p: "forEach_listener w s pre = (w1, Return ())"
    using forEach_listener_returning[OF assms(1)] by (simp add: w1_def)
  have "call_listener w1 l s =
      (w1\<lparr>env := effect (funs w1) s (env w1) l, trace := trace w1 @ [Called l s]\<rparr>, Throw e)"
    using assms(2,3) by (intro call_listener_returning) (simp_all add: w1_def)
  then show ?thesis
    using p by (simp add: forEach_listener_append w1_def)
qed

lemma proxy_set_returning:
  assumes "persist h (st\<lparr>state := AList.update key v (state st)\<rparr>) w = Inr w1"
    and "returning (funs w) (AList.update key v (state st)) (env w) (listeners st)"
  shows "proxy_set h st w key v =
           ((st\<lparr>state := AList.update key v (state st)\<rparr>,
             w1\<lparr>env := effects (funs w) (AList.update key v (state st)) (env w) (listeners st),
                trace := trace w1 @
                  map (\<lambda>l. Called l (AList.update key v (state st))) (listeners st)\<rparr>),
            Return True)"
proof -
  have fr: "funs w1 = funs w" "env w1 = env w" using persist_cases[OF assms(1)] by simp_all
  have "returning (funs w1) (AList.update key v (state st)) (env w1) (listeners st)"
    using assms(2) fr by simp
  from forEach_listener_returning[OF this] assms(1) show ?thesis
    by (simp add: proxy_set_def notify_def fr)
qed

lemma proxy_set_throwing:
  assumes "persist h (st\<lparr>state := AList.update key v (state st)\<rparr>) w = Inr w1"
    and "listeners st = pre @ l # post"
    and "returning (funs w) (AList.update key v (state st)) (env w) pre"
    and "l < length (funs w)"
    and "snd ((funs w ! l) (AList.update key v (state st))
           (effects (funs w) (AList.update key v (state st)) (env w) pre)) = Throw e"
  shows "proxy_set h st w key v =
           ((st\<lparr>state := AList.update key v (state st)\<rparr>,
             w1\<lparr>env := effect (funs w) (AList.update key v (state st))
                        (effects (funs w) (AList.update key v (state st)) (env w) pre) l,
                trace := trace w1 @
                  map (\<lambda>l. Called l (AList.update key v (state st))) (pre @ [l])\<rparr>),
            Throw e)"
proof -
  have fr: "funs w1 = funs w" "env w1 = env w" using persist_cases[OF assms(1)] by simp_all
  have "forEach_listener w1 (AList.update key v (state st)) (pre @ l # post) =
      (w1\<lparr>env := effect (funs w1) (AList.update key v (state st))
                   (effects (funs w1) (AList.update key v (state st)) (env w1) pre) l,
          trace := trace w1 @ map (\<lambda>l. Called l (AList.update key v (state st))) (pre @ [l])\<rparr>,
       Throw e)"
    using assms(3,4,5) fr by (intro forEach_listener_throwing) simp_all
  with assms(1,2) show ?thesis
    by (simp add: proxy_set_def notify_def fr)
qed

subsection \<open>Applying markup\<close>

lemma onDebugging_simps:
  "childNodes (onDebugging q msg e) = childNodes e"
  "\<not> debugging q \<Longrightarrow> onDebugging q msg e = e"
  by (simp_all add: onDebugging_def)

lemma updateAction_patch:
  "childNodes (fst (updateAction h False nn m t s)) x =
     (if x = t \<and> innerHTML h (childNodes (fst s) t) \<noteq> m
      then map (cloneNode h) nn else childNodes (fst s) x)"
  "console (fst (updateAction h False nn m t s)) = console (fst s)"
  by (simp_all add: updateAction_def Let_def)

lemma forNodes_patch:
  "childNodes (fst (forNodes q (updateAction h False nn m) msg ns s)) x =
     (if x \<in> set ns \<and> innerHTML h (childNodes (fst s) x) \<noteq> m
      then map (cloneNode h) nn else childNodes (fst s) x)"
proof (induction ns arbitrary: s)
  case Nil
  then show ?case by simp
next
  case (Cons n ns)
  define s1 where "s1 = updateAction h False nn m n (onDebugging q msg (fst s), snd s)"
  have step: "childNodes (fst s1) y =
     (if y = n \<and> innerHTML h (childNodes (fst s) n) \<noteq> m
      then map (cloneNode h) nn else childNodes (fst s) y)" for y
    by (simp add: s1_def updateAction_patch onDebugging_simps)
  have "childNodes (fst (forNodes q (updateAction h False nn m) msg (n # ns) s)) x =
      childNodes (fst (forNodes q (updateAction h False nn m) msg ns s1)) x"
    by (simp add: s1_def)
  also have "\<dots> = (if x \<in> set ns \<and> innerHTML h (childNodes (fst s1) x) \<noteq> m
      then map (cloneNode h) nn else childNodes (fst s1) x)"
    by (rule Cons.IH)
  also have "\<dots> = (if x \<in> set (n # ns) \<and> innerHTML h (childNodes (fst s) x) \<noteq> m
      then map (cloneNode h) nn else childNodes (fst s) x)"
    by (auto simp: step)
  finally show ?case .
qed

lemma forNodes_console:
  "\<not> debugging q \<Longrightarrow>
     console (fst (forNodes q (updateAction h False nn m) msg ns s)) = console (fst s)"
  by (induction ns arbitrary: s) (simp_all add: updateAction_patch onDebugging_simps)

subsection \<open>Subscribing\<close>

text \<open>
  Claim C6. For every store and every listener (a function object of the table),
  \<open>subscribe\<close> adds the listener to the registry and invokes it exactly once, with the
  state current at that time, inside the call itself: the trace grows by this single
  invocation and the environment is the one the listener leaves. Only then is the
  unsubscribe handle of that listener returned (or the listener's exception propagated).
  No field write is involved.
\<close>

theorem subscribe_replay:
  assumes "l < length (funs w)"
  shows "case subscribe st w l of ((st', w'), r) \<Rightarrow>
           listeners st' = Set_add l (listeners st) \<and> l \<in> set (listeners st') \<and>
           state st' = state st \<and> storageKey st' = storageKey st \<and>
           trace w' = trace w @ [Called l (state st)] \<and>
           env w' = fst ((funs w ! l) (state st) (env w)) \<and>
           r = (case snd ((funs w ! l) (state st) (env w)) of
                  Return u \<Rightarrow> Return (Unsubscriber l) | Throw e \<Rightarrow> Throw e)"
  using assms
  by (auto simp: subscribe_def call_listener_def Set_add_def split: prod.splits result.splits)

theorem subscribe_replay_witness:
  "(0::nat) < length (funs (demo_world [quiet])) \<and>
   subscribe (demo_store [] None) (demo_world [quiet]) 0 =
     ((demo_store [0] None, (demo_world [quiet])\<lparr>trace := [Called 0 [(''count'', 0)]]\<rparr>),
      Return (Unsubscriber 0))"
  using subscribe_replay [of 0 "demo_world [quiet]" "demo_store [] None"]
  by (simp add: demo_host_def demo_world_def demo_store_def quiet_def
      subscribe_def call_listener_def Set_add_def)

subsection \<open>Field writes\<close>

text \<open>
  Claim C3, as the code has it. Let the storage key of the store be absent or a
  non-empty string, and let every listener return in the pass of this write. Without a
  key the write applies the value to the record, invokes every listener, in registration
  order, with the full updated record, each on the environment its predecessor left, and
  returns \<open>true\<close>; the storage is not written. With a key, when the updated record
  serializes and the storage accepts the text, the write does the same after it has put
  the serialization of the entire updated record into the slot: the save comes before
  the first invocation in the trace.
\<close>

theorem write_sequence:
  fixes h :: "('v, 'n) host"
  assumes ret: "returning (funs w) (AList.update key v (state st)) (env w) (listeners st)"
  shows "(storageKey st = None \<longrightarrow>
            proxy_set h st w key v =
              ((st\<lparr>state := AList.update key v (state st)\<rparr>,
                w\<lparr>env := effects (funs w) (AList.update key v (state st)) (env w) (listeners st),
                  trace := trace w @
                    map (\<lambda>l. Called l (AList.update key v (state st))) (listeners st)\<rparr>),
               Return True)) \<and>
         (\<forall>k saved. storageKey st = Some k \<and> k \<noteq> [] \<and>
             JSON_stringify h (AList.update key v (state st)) = Inr saved \<and>
             storage_fault h (localStorage w) k saved = None \<longrightarrow>
            proxy_set h st w key v =
              ((st\<lparr>state := AList.update key v (state st)\<rparr>,
                w\<lparr>localStorage := (localStorage w)(k \<mapsto> saved),
                  env := effects (funs w) (AList.update key v (state st)) (env w) (listeners st),
                  trace := trace w @ Saved k saved #
                    map (\<lambda>l. Called l (AList.update key v (state st))) (listeners st)\<rparr>),
               Return True))"
proof (intro conjI allI impI)
  assume "storageKey st = None"
  then have "persist h (st\<lparr>state := AList.update key v (state st)\<rparr>) w = Inr w"
    by (simp add: persist_def)
  from proxy_set_returning[OF this ret] show "proxy_set h st w key v =
      ((st\<lparr>state := AList.update key v (state st)\<rparr>,
        w\<lparr>env := effects (funs w) (AList.update key v (state st)) (env w) (listeners st),
          trace := trace w @
            map (\<lambda>l. Called l (AList.update key v (state st))) (listeners st)\<rparr>),
       Return True)" .
next
  fix k saved
  assume a: "storageKey st = Some k \<and> k \<noteq> [] \<and>
      JSON_stringify h (AList.update key v (state st)) = Inr saved \<and>
      storage_fault h (localStorage w) k saved = None"
  then have "persist h (st\<lparr>state := AList.update key v (state st)\<rparr>) w =
      Inr (w\<lparr>localStorage := (localStorage w)(k \<mapsto> saved), trace := trace w @ [Saved k saved]\<rparr>)"
    by (simp add: persist_def setItem_def)
  from proxy_set_returning[OF this ret] show "proxy_set h st w key v =
      ((st\<lparr>state := AList.update key v (state st)\<rparr>,
        w\<lparr>localStorage := (localStorage w)(k \<mapsto> saved),
          env := effects (funs w) (AList.update key v (state st)) (env w) (listeners st),
          trace := trace w @ Saved k saved #
            map (\<lambda>l. Called l (AList.update key v (state st))) (listeners st)\<rparr>),
       Return True)"
    by simp
qed

theorem write_sequence_witness:
  \<open>returning (funs (demo_world [noting, noting])) [(''count'', 1)]
     (env (demo_world [noting, noting])) [0, 1] \<and>
   proxy_set demo_host (demo_store [0, 1] (Some ''counter'')) (demo_world [noting, noting])
       ''count'' 1 =
     ((demo_store [0, 1] (Some ''counter'')\<lparr>state := [(''count'', 1)]\<rparr>,
       (demo_world [noting, noting])
         \<lparr>localStorage := [''counter'' \<mapsto> ''{"count":1}''],
          env := \<lparr>childNodes = (\<lambda>t. []), console = [''seen'', ''seen'']\<rparr>,
          trace := [Saved ''counter'' ''{"count":1}'',
                    Called 0 [(''count'', 1)], Called 1 [(''count'', 1)]]\<rparr>),
      Return True)\<close>
proof -
  let ?st = "demo_store [0, 1] (Some ''counter'')"
  let ?w = "demo_world [noting, noting]"
  have u: "AList.update ''count'' 1 (state ?st) = [(''count'', 1)]"
    "listeners ?st = [0, 1]" "storageKey ?st = Some ''counter''"
    by (simp_all add: demo_store_def)
  have r: "returning (funs ?w) [(''count'', 1)] (env ?w) [0, 1]"
    by (simp add: demo_world_def noting_def)
  have e: "effects (funs ?w) [(''count'', 1)] (env ?w) [0, 1] =
      \<lparr>childNodes = (\<lambda>t. []), console = [''seen'', ''seen'']\<rparr>"
    by (simp add: demo_world_def noting_def)
  have s: \<open>JSON_stringify demo_host [(''count'', 1)] = Inr ''{"count":1}''\<close>
    \<open>storage_fault demo_host (localStorage ?w) ''counter'' ''{"count":1}'' = None\<close>
    by (simp_all add: demo_host_def)
  have l: "localStorage ?w = Map.empty" "trace ?w = []" by (simp_all add: demo_world_def)
  have "returning (funs ?w) (AList.update ''count'' 1 (state ?st)) (env ?w) (listeners ?st)"
    using r by (simp only: u)
  from write_sequence [where h = demo_host, OF this] s
  have \<open>proxy_set demo_host ?st ?w ''count'' 1 =
     ((?st\<lparr>state := [(''count'', 1)]\<rparr>,
       ?w\<lparr>localStorage := [''counter'' \<mapsto> ''{"count":1}''],
          env := \<lparr>childNodes = (\<lambda>t. []), console = [''seen'', ''seen'']\<rparr>,
          trace := [Saved ''counter'' ''{"count":1}'',
                    Called 0 [(''count'', 1)], Called 1 [(''count'', 1)]]\<rparr>),
      Return True)\<close>
    unfolding u e l by simp
  with r show ?thesis by simp
qed

text \<open>
  The claim fails for a store whose slot is the empty string: the key is set, the record
  serializes and the write returns after notifying the listener, yet nothing is written
  to the storage and the trace holds no save.
\<close>

theorem empty_key_write_saves_nothing:
  \<open>storageKey (demo_store [0] (Some [])) = Some [] \<and>
   JSON_stringify demo_host [(''count'', 1)] = Inr ''{"count":1}'' \<and>
   proxy_set demo_host (demo_store [0] (Some [])) (demo_world [quiet]) ''count'' 1 =
     ((demo_store [0] (Some [])\<lparr>state := [(''count'', 1)]\<rparr>,
       (demo_world [quiet])\<lparr>trace := [Called 0 [(''count'', 1)]]\<rparr>),
      Return True) \<and>
   localStorage (demo_world [quiet]) [] = None\<close>
  by (simp add: proxy_set_def persist_def notify_def call_listener_def demo_host_def
      demo_store_def demo_world_def quiet_def)

text \<open>
  Claim C8, as the code has it. No comparison of the new value with the old one is
  made. For every field write whose save step succeeds (or that has none) and whose
  listeners return, the write invokes every listener, in registration order, with the
  full record, and returns \<open>true\<close>, whatever the value written; when the value is the
  one the field already holds, the record is left as it was and the listeners are
  invoked all the same.
\<close>

theorem write_notifies_unfiltered:
  assumes saved: "persist h (st\<lparr>state := AList.update key v (state st)\<rparr>) w = Inr w1"
    and ret: "returning (funs w) (AList.update key v (state st)) (env w) (listeners st)"
  shows "proxy_set h st w key v =
           ((st\<lparr>state := AList.update key v (state st)\<rparr>,
             w1\<lparr>env := effects (funs w) (AList.update key v (state st)) (env w) (listeners st),
                trace := trace w1 @
                  map (\<lambda>l. Called l (AList.update key v (state st))) (listeners st)\<rparr>),
            Return True) \<and>
         (map_of (state st) key = Some v \<longrightarrow>
            st\<lparr>state := AList.update key v (state st)\<rparr> = st)"
  using proxy_set_returning[OF saved ret] by (simp add: AList.update_triv)

theorem write_notifies_unfiltered_witness:
  "map_of (state (demo_store [0, 1] None)) ''count'' = Some 0 \<and>
   returning (funs (demo_world [noting, noting])) [(''count'', 0)]
     (env (demo_world [noting, noting])) [0, 1] \<and>
   proxy_set demo_host (demo_store [0, 1] None) (demo_world [noting, noting]) ''count'' 0 =
     ((demo_store [0, 1] None,
       (demo_world [noting, noting])
         \<lparr>env := \<lparr>childNodes = (\<lambda>t. []), console = [''seen'', ''seen'']\<rparr>,
          trace := [Called 0 [(''count'', 0)], Called 1 [(''count'', 0)]]\<rparr>),
      Return True)"
proof -
  let ?st = "demo_store [0, 1] None"
  let ?w = "demo_world [noting, noting]"
  have u: "AList.update ''count'' 0 (state ?st) = [(''count'', 0)]"
    "listeners ?st = [0, 1]"
    by (simp_all add: demo_store_def)
  have m: "map_of (state ?st) ''count'' = Some 0"
    by (simp add: demo_store_def)
  have r: "returning (funs ?w) [(''count'', 0)] (env ?w) [0, 1]"
    by (simp add: demo_world_def noting_def)
  have e: "effects (funs ?w) [(''count'', 0)] (env ?w) [0, 1] =
      \<lparr>childNodes = (\<lambda>t. []), console = [''seen'', ''seen'']\<rparr>"
    by (simp add: demo_world_def noting_def)
  have p: "persist demo_host (?st\<lparr>state := AList.update ''count'' 0 (state ?st)\<rparr>) ?w = Inr ?w"
    by (simp add: persist_def demo_store_def)
  have t: "trace ?w = []" by (simp add: demo_world_def)
  have "returning (funs ?w) (AList.update ''count'' 0 (state ?st)) (env ?w) (listeners ?st)"
    using r by (simp only: u)
  from write_notifies_unfiltered [OF p this] m
  have "proxy_set demo_host ?st ?w ''count'' 0 =
     ((?st,
       ?w\<lparr>env := \<lparr>childNodes = (\<lambda>t. []), console = [''seen'', ''seen'']\<rparr>,
          trace := [Called 0 [(''count'', 0)], Called 1 [(''count'', 0)]]\<rparr>),
      Return True)"
    unfolding u e t by simp
  with m r show ?thesis by simp
qed

text \<open>
  The claim fails for a write whose save throws: on a full storage the write of the
  value the field already holds invokes no listener.
\<close>

theorem equal_write_on_full_storage:
  "map_of (state (demo_store [0] (Some ''counter''))) ''count'' = Some 0 \<and>
   listeners (demo_store [0] (Some ''counter'')) = [0] \<and>
   proxy_set full_host (demo_store [0] (Some ''counter'')) (demo_world [noting]) ''count'' 0 =
     ((demo_store [0] (Some ''counter''), demo_world [noting]), Throw QuotaExceededError) \<and>
   trace (demo_world [noting]) = [] \<and>
   console (env (demo_world [noting])) = []"
  by (simp add: proxy_set_def persist_def setItem_def full_host_def demo_host_def
      demo_store_def demo_world_def)

text \<open>
  Claim C7. Let the save step of a write succeed, and let the registry be \<open>pre\<close>, then
  \<open>l\<close>, then \<open>post\<close>. When the listeners of \<open>pre\<close> return in this pass and \<open>l\<close> then
  throws \<open>e\<close>, the write throws \<open>e\<close> to its caller. The environment is the one that
  the listeners of \<open>pre\<close>, in order, and then \<open>l\<close> have left, the trace holds their
  invocations and no other, and no listener of \<open>post\<close> is among them: the earlier
  listeners have been notified for this write and the later ones have not.
\<close>

theorem listener_failure_policy:
  assumes saved: "persist h (st\<lparr>state := AList.update key v (state st)\<rparr>) w = Inr w1"
    and reg: "listeners st = pre @ l # post" "distinct (listeners st)"
    and earlier: "returning (funs w) (AList.update key v (state st)) (env w) pre"
    and fn: "l < length (funs w)"
    and throws: "snd ((funs w ! l) (AList.update key v (state st))
                   (effects (funs w) (AList.update key v (state st)) (env w) pre)) = Throw e"
  shows "proxy_set h st w key v =
           ((st\<lparr>state := AList.update key v (state st)\<rparr>,
             w1\<lparr>env := effect (funs w) (AList.update key v (state st))
                        (effects (funs w) (AList.update key v (state st)) (env w) pre) l,
                trace := trace w1 @
                  map (\<lambda>l. Called l (AList.update key v (state st))) (pre @ [l])\<rparr>),
            Throw e) \<and>
         (\<forall>p\<in>set post. p \<notin> set (pre @ [l]))"
proof -
  have "\<forall>p\<in>set post. p \<notin> set (pre @ [l])" using reg by auto
  with proxy_set_throwing[OF saved reg(1) earlier fn throws] show ?thesis by simp
qed

theorem listener_failure_policy_witness:
  "listeners (demo_store [0, 1, 2] None) = [0] @ 1 # [2] \<and>
   returning (funs (demo_world [noting, failing, noting])) [(''count'', 1)]
     (env (demo_world [noting, failing, noting])) [0] \<and>
   proxy_set demo_host (demo_store [0, 1, 2] None) (demo_world [noting, failing, noting])
       ''count'' 1 =
     ((demo_store [0, 1, 2] None\<lparr>state := [(''count'', 1)]\<rparr>,
       (demo_world [noting, failing, noting])
         \<lparr>env := \<lparr>childNodes = (\<lambda>t. []), console = [''seen'']\<rparr>,
          trace := [Called 0 [(''count'', 1)], Called 1 [(''count'', 1)]]\<rparr>),
      Throw (Error ''boom''))"
proof -
  let ?st = "demo_store [0, 1, 2] None"
  let ?w = "demo_world [noting, failing, noting]"
  have u: "AList.update ''count'' 1 (state ?st) = [(''count'', 1)]"
    by (simp add: demo_store_def)
  have a: "persist demo_host (?st\<lparr>state := AList.update ''count'' 1 (state ?st)\<rparr>) ?w = Inr ?w"
    by (simp add: persist_def demo_store_def)
  have b: "listeners ?st = [0] @ 1 # [2]" "distinct (listeners ?st)"
    by (simp_all add: demo_store_def)
  have r: "returning (funs ?w) [(''count'', 1)] (env ?w) [0]"
    by (simp add: demo_world_def noting_def)
  have c: "returning (funs ?w) (AList.update ''count'' 1 (state ?st)) (env ?w) [0]"
    using r by (simp only: u)
  have d: "1 < length (funs ?w)"
    by (simp add: demo_world_def)
  have e: "snd ((funs ?w ! 1) (AList.update ''count'' 1 (state ?st))
      (effects (funs ?w) (AList.update ''count'' 1 (state ?st)) (env ?w) [0])) = Throw (Error ''boom'')"
    by (simp add: demo_world_def failing_def)
  have f: "effect (funs ?w) [(''count'', 1)] (effects (funs ?w) [(''count'', 1)] (env ?w) [0]) 1 =
      \<lparr>childNodes = (\<lambda>t. []), console = [''seen'']\<rparr>"
    by (simp add: demo_world_def noting_def failing_def)
  have t: "trace ?w = []" by (simp add: demo_world_def)
  from listener_failure_policy [OF a b c d e]
  have "proxy_set demo_host ?st ?w ''count'' 1 =
     ((?st\<lparr>state := [(''count'', 1)]\<rparr>,
       ?w\<lparr>env := \<lparr>childNodes = (\<lambda>t. []), console = [''seen'']\<rparr>,
          trace := [Called 0 [(''count'', 1)], Called 1 [(''count'', 1)]]\<rparr>),
      Throw (Error ''boom''))"
    unfolding u f t by simp
  with b(1) r show ?thesis by simp
qed

text \<open>
  Claim C1, as the code has it. When a storage key is set and the save of a write fails,
  because the record cannot be serialized or because the storage refuses the text, the
  record of the store is updated all the same, the exception of the save propagates to
  the caller of the write, and nothing else happens: the storage is as before and no
  listener is invoked.
\<close>

theorem save_failure_aborts_write:
  assumes slot: "truthy (storageKey st)"
    and fails: "JSON_stringify h (AList.update key v (state st)) = Inl e \<or>
        (\<exists>text. JSON_stringify h (AList.update key v (state st)) = Inr text \<and>
           storage_fault h (localStorage w) (the (storageKey st)) text = Some e)"
  shows "proxy_set h st w key v = ((st\<lparr>state := AList.update key v (state st)\<rparr>, w), Throw e)"
  using assms by (auto simp: proxy_set_def persist_def setItem_def)

theorem save_failure_aborts_write_witness:
  "truthy (storageKey (demo_store [0] (Some ''counter''))) \<and>
   proxy_set full_host (demo_store [0] (Some ''counter'')) (demo_world [quiet]) ''count'' 1 =
     ((demo_store [0] (Some ''counter'')\<lparr>state := [(''count'', 1)]\<rparr>, demo_world [quiet]),
      Throw QuotaExceededError)"
proof -
  let ?st = "demo_store [0] (Some ''counter'')"
  have a: "truthy (storageKey ?st)"
    by (simp add: demo_store_def)
  have b: "JSON_stringify full_host (AList.update ''count'' 1 (state ?st)) = Inl QuotaExceededError \<or>
        (\<exists>text. JSON_stringify full_host (AList.update ''count'' 1 (state ?st)) = Inr text \<and>
           storage_fault full_host (localStorage (demo_world [quiet])) (the (storageKey ?st)) text
             = Some QuotaExceededError)"
    by (simp add: full_host_def demo_host_def demo_store_def)
  from save_failure_aborts_write[OF a b] a show ?thesis
    by (simp add: demo_store_def)
qed

text \<open>
  The claim fails: on a full storage the write of the scenario updates the record, and
  the one registered listener is not invoked.
\<close>

theorem save_failure_skips_notification:
  "state (fst (fst (proxy_set full_host (demo_store [0] (Some ''counter'')) (demo_world [quiet])
       ''count'' 1))) = [(''count'', 1)] \<and>
   listeners (fst (fst (proxy_set full_host (demo_store [0] (Some ''counter'')) (demo_world [quiet])
       ''count'' 1))) = [0] \<and>
   Called 0 [(''count'', 1)] \<notin> set (trace (snd (fst (proxy_set full_host
       (demo_store [0] (Some ''counter'')) (demo_world [quiet]) ''count'' 1))))"
  by (simp add: proxy_set_def persist_def setItem_def full_host_def demo_host_def
      demo_store_def demo_world_def)

subsection \<open>Unsubscribing\<close>



text \<open>
  Claim C10. The registry is a set of listener identities. Let the same function
  object \<open>l\<close> be subscribed twice to a store, returning both times. Each call applies
  the listener to the state (two replays, the second on the environment the first has
  left), the second call leaves the registry as the first has made it, with \<open>l\<close> in it
  exactly once, and both calls return the same handle. That handle removes the listener
  entirely, after which it changes nothing and returns \<open>false\<close>. Every write on
  the store while its registry is this one, whose save succeeds and whose listeners
  return, runs one pass over the registry, so it applies \<open>l\<close> once.
\<close>

theorem same_listener_twice:
  fixes h :: "('v, 'n) host"
  assumes d: "distinct (listeners st)"
    and ret: "returning (funs w) (state st) (env w) [l, l]"
  shows "let st1 = st\<lparr>listeners := Set_add l (listeners st)\<rparr>;
             w1 = w\<lparr>env := effects (funs w) (state st) (env w) [l],
                    trace := trace w @ [Called l (state st)]\<rparr>;
             w2 = w\<lparr>env := effects (funs w) (state st) (env w) [l, l],
                    trace := trace w @ [Called l (state st), Called l (state st)]\<rparr>;
             st3 = st1\<lparr>listeners := removeAll l (listeners st1)\<rparr>
         in subscribe st w l = ((st1, w1), Return (Unsubscriber l)) \<and>
            subscribe st1 w1 l = ((st1, w2), Return (Unsubscriber l)) \<and>
            count_list (listeners st1) l = 1 \<and>
            invoke st1 (Unsubscriber l) = (st3, Return (Bool True)) \<and>
            l \<notin> set (listeners st3) \<and>
            invoke st3 (Unsubscriber l) = (st3, Return (Bool False)) \<and>
            (\<forall>sx wx w3.
                listeners sx = listeners st1 \<and>
                persist h (sx\<lparr>state := AList.update key v (state sx)\<rparr>) wx = Inr w3 \<and>
                returning (funs wx) (AList.update key v (state sx)) (env wx) (listeners sx) \<longrightarrow>
               proxy_set h sx wx key v =
                 ((sx\<lparr>state := AList.update key v (state sx)\<rparr>,
                   w3\<lparr>env := effects (funs wx) (AList.update key v (state sx)) (env wx)
                                (listeners st1),
                      trace := trace w3 @
                        map (\<lambda>x. Called x (AList.update key v (state sx))) (listeners st1)\<rparr>),
                  Return True))"
proof -
  define st1 where "st1 = st\<lparr>listeners := Set_add l (listeners st)\<rparr>"
  define w1 where "w1 = w\<lparr>env := effects (funs w) (state st) (env w) [l],
                    trace := trace w @ [Called l (state st)]\<rparr>"
  define w2 where "w2 = w\<lparr>env := effects (funs w) (state st) (env w) [l, l],
                    trace := trace w @ [Called l (state st), Called l (state st)]\<rparr>"
  define st3 where "st3 = st1\<lparr>listeners := removeAll l (listeners st1)\<rparr>"
  have fn: "l < length (funs w)" and r1: "snd ((funs w ! l) (state st) (env w)) = Return ()"
    and r2: "snd ((funs w ! l) (state st) (effect (funs w) (state st) (env w) l)) = Return ()"
    using ret by simp_all
  have c1: "call_listener w l (state st) = (w1, Return ())"
    using call_listener_returning[OF fn r1] by (simp add: w1_def)
  have f1: "subscribe st w l = ((st1, w1), Return (Unsubscriber l))"
    using c1 by (simp add: subscribe_def st1_def)
  have c2: "call_listener w1 l (state st) = (w2, Return ())"
    using call_listener_returning[of l w1 "state st" "Return ()"] fn r2
    by (simp add: w1_def w2_def)
  have mem: "l \<in> set (listeners st1)" by (simp add: st1_def Set_add_def)
  have f2: "subscribe st1 w1 l = ((st1, w2), Return (Unsubscriber l))"
    using c2 mem by (simp add: subscribe_def Set_add_def st1_def)
  have "distinct (listeners st1)" using d by (simp add: st1_def Set_add_distinct)
  with mem have f3: "count_list (listeners st1) l = 1" by (simp add: count_list_distinct)
  have f4: "invoke st1 (Unsubscriber l) = (st3, Return (Bool True))"
    using mem by (simp add: Set_delete_def st3_def)
  have f5: "l \<notin> set (listeners st3)" by (simp add: st3_def)
  have f6: "invoke st3 (Unsubscriber l) = (st3, Return (Bool False))"
    by (simp add: Set_delete_def st3_def)
  have f7: "\<forall>sx wx w3.
                listeners sx = listeners st1 \<and>
                persist h (sx\<lparr>state := AList.update key v (state sx)\<rparr>) wx = Inr w3 \<and>
                returning (funs wx) (AList.update key v (state sx)) (env wx) (listeners sx) \<longrightarrow>
               proxy_set h sx wx key v =
                 ((sx\<lparr>state := AList.update key v (state sx)\<rparr>,
                   w3\<lparr>env := effects (funs wx) (AList.update key v (state sx)) (env wx)
                                (listeners st1),
                      trace := trace w3 @
                        map (\<lambda>x. Called x (AList.update key v (state sx))) (listeners st1)\<rparr>),
                  Return True)"
    using proxy_set_returning by metis
  show ?thesis
    unfolding Let_def st1_def[symmetric] w1_def[symmetric] w2_def[symmetric]
      st3_def[symmetric]
    using f1 f2 f3 f4 f5 f6 f7 by blast
qed

theorem same_listener_twice_witness:
  "distinct (listeners (demo_store [] None)) \<and>
   returning (funs (demo_world [noting])) (state (demo_store [] None))
     (env (demo_world [noting])) [0, 0] \<and>
   subscribe (demo_store [] None) (demo_world [noting]) 0 =
     ((demo_store [0] None,
       (demo_world [noting])\<lparr>env := \<lparr>childNodes = (\<lambda>t. []), console = [''seen'']\<rparr>,
                               trace := [Called 0 [(''count'', 0)]]\<rparr>),
      Return (Unsubscriber 0)) \<and>
   subscribe (demo_store [0] None)
       ((demo_world [noting])\<lparr>env := \<lparr>childNodes = (\<lambda>t. []), console = [''seen'']\<rparr>,
                               trace := [Called 0 [(''count'', 0)]]\<rparr>) 0 =
     ((demo_store [0] None,
       (demo_world [noting])\<lparr>env := \<lparr>childNodes = (\<lambda>t. []), console = [''seen'', ''seen'']\<rparr>,
                               trace := [Called 0 [(''count'', 0)], Called 0 [(''count'', 0)]]\<rparr>),
      Return (Unsubscriber 0)) \<and>
   count_list (listeners (demo_store [0] None)) 0 = 1 \<and>
   invoke (demo_store [0] None) (Unsubscriber 0) = (demo_store [] None, Return (Bool True)) \<and>
   invoke (demo_store [] None) (Unsubscriber 0) = (demo_store [] None, Return (Bool False))"
proof -
  let ?st = "demo_store [] None"
  let ?w = "demo_world [noting]"
  have d: "distinct (listeners ?st)"
    by (simp add: demo_store_def)
  have r: "returning (funs ?w) (state ?st) (env ?w) [0, 0]"
    by (simp add: demo_world_def noting_def)
  have st1: "?st\<lparr>listeners := Set_add 0 (listeners ?st)\<rparr> = demo_store [0] None"
    by (simp add: Set_add_def demo_store_def)
  note inst = same_listener_twice [OF d r, where h = demo_host and key = "''count''" and v = 1]
  from inst have "count_list (listeners (?st\<lparr>listeners := Set_add 0 (listeners ?st)\<rparr>)) 0 = 1"
    unfolding Let_def by blast
  then have c: "count_list (listeners (demo_store [0] None)) 0 = 1"
    by (simp only: st1)
  have s1: "subscribe ?st ?w 0 =
       ((demo_store [0] None,
         ?w\<lparr>env := \<lparr>childNodes = (\<lambda>t. []), console = [''seen'']\<rparr>,
            trace := [Called 0 [(''count'', 0)]]\<rparr>), Return (Unsubscriber 0))"
    and s2: "subscribe (demo_store [0] None)
         (?w\<lparr>env := \<lparr>childNodes = (\<lambda>t. []), console = [''seen'']\<rparr>,
             trace := [Called 0 [(''count'', 0)]]\<rparr>) 0 =
       ((demo_store [0] None,
         ?w\<lparr>env := \<lparr>childNodes = (\<lambda>t. []), console = [''seen'', ''seen'']\<rparr>,
            trace := [Called 0 [(''count'', 0)], Called 0 [(''count'', 0)]]\<rparr>),
        Return (Unsubscriber 0))"
    by (simp_all add: subscribe_def call_listener_def Set_add_def demo_store_def demo_world_def
        noting_def)
  have i1: "invoke (demo_store [0] None) (Unsubscriber 0) = (demo_store [] None, Return (Bool True))"
    and i2: "invoke (demo_store [] None) (Unsubscriber 0) = (demo_store [] None, Return (Bool False))"
    by (simp_all add: Set_delete_def demo_store_def)
  from d r s1 s2 c i1 i2 show ?thesis by blast
qed

subsection \<open>Persistence\<close>

text \<open>
  Claim C5, as the code has it. Let the slot key be a non-empty string, let a store be
  constructed with it, and let a field of the store be written (whatever listeners it has
  by then), where the updated record is serializable (its text is not empty and parses
  back to the record) and the storage accepts the text. Then a store constructed
  afterwards with the same key starts from the updated record, whatever initial value it
  is given.
\<close>

theorem persistence_round_trip:
  fixes h :: "('v, 'n) host"
  assumes key: "k \<noteq> []"
    and new1: "CatStore_new h (localStorage w) init (Some k) = Inr st1"
    and ser: "JSON_stringify h (AList.update f v (state st1)) = Inr text" "text \<noteq> []"
      "JSON_parse h text = Inr (AList.update f v (state st1))"
    and acc: "storage_fault h (localStorage w) k text = None"
  shows "case proxy_set h (st1\<lparr>listeners := ls\<rparr>) w f v of ((st1', w'), r) \<Rightarrow>
           state st1' = AList.update f v (state st1) \<and>
           (\<exists>st2. CatStore_new h (localStorage w') init' (Some k) = Inr st2 \<and>
              state st2 = state st1')"
proof -
  have sk: "storageKey st1 = Some k"
    using new1 by (auto simp: CatStore_new_def Let_def split: sum.splits)
  obtain st1' w' r where run: "proxy_set h (st1\<lparr>listeners := ls\<rparr>) w f v = ((st1', w'), r)"
    by (metis surj_pair)
  have st: "state st1' = AList.update f v (state st1)"
    using proxy_set_events(1)[OF run] by simp
  have "localStorage w' = (localStorage w)(k \<mapsto> text)"
    using proxy_set_saved[OF _ key _ acc run] sk ser(1) by simp
  then have "CatStore_new h (localStorage w') init' (Some k) =
      Inr \<lparr>listeners = [], state = AList.update f v (state st1), storageKey = Some k\<rparr>"
    using key ser(2,3) by (simp add: CatStore_new_def getItem_def)
  with st show ?thesis unfolding run by simp
qed

theorem persistence_round_trip_witness:
  \<open>''counter'' \<noteq> [] \<and>
   CatStore_new demo_host (localStorage (demo_world [])) [(''count'', 0)] (Some ''counter'') =
     Inr (demo_store [] (Some ''counter'')) \<and>
   JSON_stringify demo_host (AList.update ''count'' 1 (state (demo_store [] (Some ''counter'')))) =
     Inr ''{"count":1}'' \<and>
   (\<exists>st2. CatStore_new demo_host
            (localStorage (snd (fst (proxy_set demo_host (demo_store [] (Some ''counter''))
               (demo_world []) ''count'' 1))))
            [(''count'', 0)] (Some ''counter'') = Inr st2 \<and>
          state st2 = [(''count'', 1)])\<close>
proof -
  let ?st1 = "demo_store [] (Some ''counter'')"
  have k: "''counter'' \<noteq> []" by simp
  have n: "CatStore_new demo_host (localStorage (demo_world [])) [(''count'', 0)] (Some ''counter'') =
     Inr ?st1"
    by (simp add: CatStore_new_def getItem_def demo_world_def demo_store_def)
  have s: \<open>JSON_stringify demo_host (AList.update ''count'' 1 (state ?st1)) = Inr ''{"count":1}''\<close>
    \<open>''{"count":1}'' \<noteq> []\<close>
    \<open>JSON_parse demo_host ''{"count":1}'' = Inr (AList.update ''count'' 1 (state ?st1))\<close>
    by (simp_all add: demo_host_def demo_store_def)
  have a: \<open>storage_fault demo_host (localStorage (demo_world [])) ''counter'' ''{"count":1}'' = None\<close>
    by (simp add: demo_host_def)
  have id: "?st1\<lparr>listeners := []\<rparr> = ?st1" by (simp add: demo_store_def)
  obtain st1' w' r where run: "proxy_set demo_host ?st1 (demo_world []) ''count'' 1 = ((st1', w'), r)"
    by (metis surj_pair)
  from persistence_round_trip [OF k n s a, where ls = "[]" and init' = "[(''count'', 0)]"]
  have "\<exists>st2. CatStore_new demo_host (localStorage w') [(''count'', 0)] (Some ''counter'') = Inr st2 \<and>
          state st2 = [(''count'', 1)]"
    unfolding id run by (auto simp: demo_store_def)
  with k n s(1) show ?thesis unfolding run by simp
qed

text \<open>
  The claim fails for the empty string as slot key: the constructor and the trap test
  the key for truthiness, so nothing is saved or restored, and the second store of the
  scenario starts from its initial value.
\<close>

theorem empty_slot_key_not_restored:
  "CatStore_new demo_host (localStorage (demo_world [])) [(''count'', 0)] (Some []) =
     Inr (demo_store [] (Some [])) \<and>
   state (fst (fst (proxy_set demo_host (demo_store [] (Some [])) (demo_world []) ''count'' 1))) =
     [(''count'', 1)] \<and>
   CatStore_new demo_host
       (localStorage (snd (fst (proxy_set demo_host (demo_store [] (Some [])) (demo_world [])
          ''count'' 1))))
       [(''count'', 0)] (Some []) =
     Inr (demo_store [] (Some [])) \<and>
   state (demo_store [] (Some [])) = [(''count'', 0)]"
  by (simp add: CatStore_new_def getItem_def proxy_set_def persist_def notify_def
      demo_world_def demo_store_def)

subsection \<open>The patch rule\<close>

text \<open>
  Claim C4, as the code has it. The patch rule is \<open>html\<close> with a markup and without
  \<open>adding\<close>; the targets are the created element and the selected nodes. For every
  markup that is not the empty string: a target whose serialized content is textually
  identical to the markup keeps its children; every other target gets, as its entire
  child list, the clones of the nodes parsed from the markup; no element that is not a
  target changes; and when every target is identical to the markup (and debugging is
  off) the environment is left exactly as it was. The call returns the query.
\<close>

theorem patch_rule:
  assumes "markup \<noteq> []"
  shows "case html h q (Some markup) False e of (e', ret) \<Rightarrow>
     ret = QueryObj q \<and>
     (\<forall>t. childNodes e' t =
        (if (createdElement q = Some t \<or> (\<exists>ns. selectedNodes q = Some ns \<and> t \<in> set ns)) \<and>
            innerHTML h (childNodes e t) \<noteq> markup
         then map (cloneNode h) (parseFromString h markup)
         else childNodes e t)) \<and>
     (\<not> debugging q \<longrightarrow> console e' = console e) \<and>
     (\<not> debugging q \<and>
      (\<forall>t. createdElement q = Some t \<or> (\<exists>ns. selectedNodes q = Some ns \<and> t \<in> set ns) \<longrightarrow>
           innerHTML h (childNodes e t) = markup) \<longrightarrow> e' = e)"
proof -
  define nn where "nn = parseFromString h markup"
  define s1 where "s1 = forCreatedElementDo q (updateAction h False nn markup)
      ''Setting HTML to created element.'' (e, ())"
  define s2 where "s2 = forEachNodeDo q (updateAction h False nn markup)
      ''Setting HTML to selected nodes.'' s1"
  have res: "html h q (Some markup) False e = (fst s2, QueryObj q)"
    using assms by (simp add: html_def Let_def s2_def s1_def nn_def)
  have c1: "childNodes (fst s1) t =
      (if createdElement q = Some t \<and> innerHTML h (childNodes e t) \<noteq> markup
       then map (cloneNode h) nn else childNodes e t)" for t
    by (cases "createdElement q")
       (auto simp: s1_def forCreatedElementDo_def updateAction_patch onDebugging_simps)
  have c2: "childNodes (fst s2) t =
      (if (\<exists>ns. selectedNodes q = Some ns \<and> t \<in> set ns) \<and> innerHTML h (childNodes (fst s1) t) \<noteq> markup
       then map (cloneNode h) nn else childNodes (fst s1) t)" for t
    by (cases "selectedNodes q") (auto simp: s2_def forEachNodeDo_def forNodes_patch)
  have ch: "childNodes (fst s2) t =
        (if (createdElement q = Some t \<or> (\<exists>ns. selectedNodes q = Some ns \<and> t \<in> set ns)) \<and>
            innerHTML h (childNodes e t) \<noteq> markup
         then map (cloneNode h) nn else childNodes e t)" for t
    unfolding c2 c1 by auto
  have k1: "\<not> debugging q \<Longrightarrow> console (fst s1) = console e"
    by (cases "createdElement q")
       (auto simp: s1_def forCreatedElementDo_def updateAction_patch onDebugging_simps)
  have k2: "\<not> debugging q \<Longrightarrow> console (fst s2) = console (fst s1)"
    by (cases "selectedNodes q") (auto simp: s2_def forEachNodeDo_def forNodes_console)
  have same: "fst s2 = e"
    if "\<not> debugging q" "\<forall>t. createdElement q = Some t \<or>
         (\<exists>ns. selectedNodes q = Some ns \<and> t \<in> set ns) \<longrightarrow>
           innerHTML h (childNodes e t) = markup"
  proof (rule env.equality)
    show "childNodes (fst s2) = childNodes e"
    proof
      fix t show "childNodes (fst s2) t = childNodes e t"
        unfolding ch using that(2) by auto
    qed
    show "console (fst s2) = console e" using k1 k2 that(1) by simp
  qed simp
  have A: "\<forall>t. childNodes (fst s2) t =
        (if (createdElement q = Some t \<or> (\<exists>ns. selectedNodes q = Some ns \<and> t \<in> set ns)) \<and>
            innerHTML h (childNodes e t) \<noteq> markup
         then map (cloneNode h) (parseFromString h markup) else childNodes e t)"
    using ch by (auto simp: nn_def)
  have B: "\<not> debugging q \<longrightarrow> console (fst s2) = console e" using k1 k2 by simp
  have C: "\<not> debugging q \<and>
      (\<forall>t. createdElement q = Some t \<or> (\<exists>ns. selectedNodes q = Some ns \<and> t \<in> set ns) \<longrightarrow>
           innerHTML h (childNodes e t) = markup) \<longrightarrow> fst s2 = e"
    using same by blast
  show ?thesis
    unfolding res using A B C by simp
qed

theorem patch_rule_witness:
  "''<b>1</b>'' \<noteq> [] \<and>
   html demo_host \<lparr>createdElement = Some 2, selectedNodes = Some [0, 1], debugging = False\<rparr>
     (Some ''<b>1</b>'') False
     \<lparr>childNodes = (\<lambda>t. if t = 0 then [''<b>1</b>''] else [''<b>0</b>'']), console = []\<rparr> =
   (\<lparr>childNodes = (\<lambda>t. if t = 0 then [''<b>1</b>''] else [''<b>0</b>''])
        (2 := [''<b>1</b>''], 1 := [''<b>1</b>'']), console = []\<rparr>,
    QueryObj \<lparr>createdElement = Some 2, selectedNodes = Some [0, 1], debugging = False\<rparr>)"
proof -
  let ?q = "\<lparr>createdElement = Some 2, selectedNodes = Some [0, 1], debugging = False\<rparr>"
  let ?e = "\<lparr>childNodes = (\<lambda>t::nat. if t = 0 then [''<b>1</b>''] else [''<b>0</b>'']),
            console = []::string list\<rparr>"
  have m: "''<b>1</b>'' \<noteq> []" by simp
  have run: "html demo_host ?q (Some ''<b>1</b>'') False ?e =
      (\<lparr>childNodes = (\<lambda>t. if t = 0 then [''<b>1</b>''] else [''<b>0</b>''])
        (2 := [''<b>1</b>''], 1 := [''<b>1</b>'']), console = []\<rparr>, QueryObj ?q)"
    by (simp add: html_def forCreatedElementDo_def forEachNodeDo_def updateAction_def
        onDebugging_def demo_host_def Let_def)
  from patch_rule [OF m, where h = demo_host and q = ?q and e = ?e]
  have "snd (html demo_host ?q (Some ''<b>1</b>'') False ?e) = QueryObj ?q"
    by (simp add: case_prod_beta)
  with m run show ?thesis by simp
qed

text \<open>
  The claim fails for the empty markup: \<open>html\<close> tests the markup for truthiness, so
  the empty string takes the reading branch and replaces nothing, although the target's
  content differs from it.
\<close>

theorem empty_markup_not_applied:
  "innerHTML demo_host (childNodes demo_env 0) \<noteq> [] \<and>
   map (cloneNode demo_host) (parseFromString demo_host []) = [] \<and>
   html demo_host demo_query (Some []) False demo_env = (demo_env, Strings [''<p>old</p>'']) \<and>
   childNodes demo_env 0 = [''<p>old</p>'']"
  by (simp add: html_def forCreatedElementDo_def forEachNodeDo_def pushHtml_def
      onDebugging_def demo_host_def demo_query_def demo_env_def Let_def)

subsection \<open>Binding\<close>






end
